theory Spec2Isabelle
  imports Complex_Main "HOL-Library.Monad_Syntax" "HOL-Library.Multiset"
    "HOL-Library.Product_Lexorder"
begin

section \<open>YCSB latency analysis: the text scraping of \<^verbatim>\<open>analyze_latency.py\<close>\<close>

text \<open>
  The analyser runs an external script several times, scrapes \<^verbatim>\<open>[UPDATE]\<close> latency
  records and phase status records from the captured text with two fixed regular
  expressions, converts the captured fields with \<^verbatim>\<open>int\<close> and \<^verbatim>\<open>float\<close>, and
  accumulates one result per run.

  A Python \<^verbatim>\<open>str\<close> is modelled as a \<^typ>\<open>string\<close>; a character is a code point
  below 256.  Python integers are \<^typ>\<open>int\<close>.  A Python float that comes out of
  \<^verbatim>\<open>float(s)\<close> for a captured field \<open>s\<close> is modelled by the exact decimal value of
  \<open>s\<close> as a \<^typ>\<open>rat\<close>: rounding to a double is monotone and keeps zero, so the order
  and the sign of the exact values are the order and the sign of the doubles.
\<close>

subsection \<open>Character classes of the regular expressions\<close>

text \<open>
  For a \<^verbatim>\<open>str\<close> pattern the classes \<^verbatim>\<open>\d\<close>, \<^verbatim>\<open>\s\<close> and \<^verbatim>\<open>\w\<close> are the
  Unicode ones.  Below code point 256 they are: the ten ASCII digits; the characters
  9 to 13, 28 to 32, 133 and 160; the ASCII letters and digits, the underscore and the
  letters and numeric characters of Latin-1.
\<close>

definition is_digit :: "char \<Rightarrow> bool" where
  "is_digit c = (48 \<le> (of_char c :: nat) \<and> (of_char c :: nat) \<le> 57)"

definition is_space :: "char \<Rightarrow> bool" where
  "is_space c =
     (let n = (of_char c :: nat)
      in (9 \<le> n \<and> n \<le> 13) \<or> (28 \<le> n \<and> n \<le> 32) \<or> n = 133 \<or> n = 160)"

definition is_word :: "char \<Rightarrow> bool" where
  "is_word c =
     (let n = (of_char c :: nat)
      in (48 \<le> n \<and> n \<le> 57) \<or> (65 \<le> n \<and> n \<le> 90) \<or> n = 95 \<or> (97 \<le> n \<and> n \<le> 122)
         \<or> n = 170 \<or> n = 178 \<or> n = 179 \<or> n = 181 \<or> n = 185 \<or> n = 186
         \<or> (188 \<le> n \<and> n \<le> 190) \<or> (192 \<le> n \<and> n \<le> 214) \<or> (216 \<le> n \<and> n \<le> 246)
         \<or> 248 \<le> n)"

text \<open>The class \<^verbatim>\<open>[\d.]\<close> of the latency and throughput fields.\<close>

definition is_digit_or_dot :: "char \<Rightarrow> bool" where
  "is_digit_or_dot c = (is_digit c \<or> c = CHR ''.'')"

subsection \<open>Exceptions and the conversions \<^verbatim>\<open>int\<close> and \<^verbatim>\<open>float\<close>\<close>

datatype py_exn = ValueError | KeyboardInterrupt

text \<open>
  \<^verbatim>\<open>int(s)\<close> on a non-empty string of ASCII digits gives its decimal value, unless
  the interpreter limits the length of decimal integer strings: with a limit \<open>maxd\<close>
  (\<^verbatim>\<open>sys.get_int_max_str_digits()\<close>, by default 4300, and 0 for no limit) a string of
  more than 640 and more than \<open>maxd\<close> digits raises \<^verbatim>\<open>ValueError\<close>.  The regular
  expressions hand over digit strings only; other strings are answered with
  \<^verbatim>\<open>ValueError\<close> here, which is right for the empty string and for strings holding
  a dot.
\<close>

definition digit_val :: "char \<Rightarrow> int" where
  "digit_val c = int (of_char c) - 48"

definition dec_value :: "string \<Rightarrow> int" where
  "dec_value s = foldl (\<lambda>a c. 10 * a + digit_val c) 0 s"

definition py_int :: "nat \<Rightarrow> string \<Rightarrow> py_exn + int" where
  "py_int maxd s =
     (if s = [] \<or> \<not> list_all is_digit s then Inl ValueError
      else if 640 < length s \<and> 0 < maxd \<and> maxd < length s then Inl ValueError
      else Inr (dec_value s))"

text \<open>
  \<^verbatim>\<open>float(s)\<close> on a string of digits and dots: the string is a decimal numeral when
  it has at most one dot and at least one digit (\<^verbatim>\<open>"1."\<close> and \<^verbatim>\<open>".5"\<close> are
  numerals, \<^verbatim>\<open>"."\<close> and \<^verbatim>\<open>"1.2.3"\<close> raise \<^verbatim>\<open>ValueError\<close>).
\<close>

definition py_float :: "string \<Rightarrow> py_exn + rat" where
  "py_float s =
     (let ip = takeWhile is_digit s; r = dropWhile is_digit s
      in case r of
           [] \<Rightarrow> if ip = [] then Inl ValueError else Inr (of_int (dec_value ip))
         | c # fp \<Rightarrow>
             if c = CHR ''.'' \<and> list_all is_digit fp \<and> (ip \<noteq> [] \<or> fp \<noteq> [])
             then Inr (of_int (dec_value (ip @ fp)) / 10 ^ length fp)
             else Inl ValueError)"

subsection \<open>The two patterns\<close>

text \<open>
  The pieces of a pattern, each consuming a prefix of the text: a literal, a greedy
  \<^verbatim>\<open>\s*\<close>, and a greedy group \<^verbatim>\<open>(c+)\<close> over a character class.  In both patterns
  every repetition is followed by a character outside its class, so the greedy choice is
  the only one that can lead to a match and the engine's backtracking finds nothing
  else (lemmas \<open>match_update_at_iff\<close>, \<open>match_update_at_greedy\<close> and
  \<open>match_phase_at_iff\<close>).
\<close>

fun literal :: "string \<Rightarrow> string \<Rightarrow> string option" where
  "literal [] s = Some s"
| "literal (p # ps) [] = None"
| "literal (p # ps) (c # cs) = (if p = c then literal ps cs else None)"

definition skip_spaces :: "string \<Rightarrow> string" where
  "skip_spaces s = dropWhile is_space s"

definition group1 :: "(char \<Rightarrow> bool) \<Rightarrow> string \<Rightarrow> (string \<times> string) option" where
  "group1 cls s =
     (if takeWhile cls s = [] then None else Some (takeWhile cls s, dropWhile cls s))"

text \<open>
  \<^verbatim>\<open>\[UPDATE\],\s*(\d+),\s*([\d.]+)\<close> tried at the start of \<open>s\<close>: the two groups
  and the text after the match.
\<close>

definition match_update_at :: "string \<Rightarrow> ((string \<times> string) \<times> string) option" where
  "match_update_at s = do {
     r1 \<leftarrow> literal ''[UPDATE],'' s;
     (timestamp_str, r2) \<leftarrow> group1 is_digit (skip_spaces r1);
     r3 \<leftarrow> literal '','' r2;
     (latency_str, r4) \<leftarrow> group1 is_digit_or_dot (skip_spaces r3);
     Some ((timestamp_str, latency_str), r4)
   }"

text \<open>
  \<^verbatim>\<open>Phase:\s*(\w+),\s*Throughput:\s*([\d.]+)\s*ops/sec,\s*Elapsed:\s*(\d+)ms\<close> tried
  at the start of \<open>s\<close>.
\<close>

definition match_phase_at :: "string \<Rightarrow> ((string \<times> string \<times> string) \<times> string) option" where
  "match_phase_at s = do {
     r1 \<leftarrow> literal ''Phase:'' s;
     (phase_name, r2) \<leftarrow> group1 is_word (skip_spaces r1);
     r3 \<leftarrow> literal '','' r2;
     r4 \<leftarrow> literal ''Throughput:'' (skip_spaces r3);
     (throughput_str, r5) \<leftarrow> group1 is_digit_or_dot (skip_spaces r4);
     r6 \<leftarrow> literal ''ops/sec,'' (skip_spaces r5);
     r7 \<leftarrow> literal ''Elapsed:'' (skip_spaces r6);
     (elapsed_str, r8) \<leftarrow> group1 is_digit (skip_spaces r7);
     r9 \<leftarrow> literal ''ms'' r8;
     Some ((phase_name, throughput_str, elapsed_str), r9)
   }"

subsection \<open>\<^verbatim>\<open>re.findall\<close>\<close>

text \<open>
  A match consumes at least its first literal, so the text after a match is shorter
  than the text it was tried on.
\<close>

lemma literal_Some: "literal p s = Some r \<longleftrightarrow> s = p @ r"
  by (induction p s rule: literal.induct) auto

lemma length_skip_spaces: "length (skip_spaces s) \<le> length s"
  by (simp add: skip_spaces_def length_dropWhile_le)

lemma group1_length: "group1 cls s = Some (g, r) \<Longrightarrow> length r < length s"
proof -
  assume a: "group1 cls s = Some (g, r)"
  then have r: "r = dropWhile cls s" and "takeWhile cls s \<noteq> []"
    by (auto simp: group1_def split: if_splits)
  then have "0 < length (takeWhile cls s)"
    by blast
  moreover have "length (takeWhile cls s) + length (dropWhile cls s) = length s"
    by (metis length_append takeWhile_dropWhile_id)
  ultimately have "length (dropWhile cls s) < length s"
    by linarith
  with r show ?thesis by blast
qed

lemma match_update_at_length:
  assumes "match_update_at s = Some (g, r)"
  shows "length r < length s"
proof -
  from assms obtain r1 ts r2 r3 lat where
    "literal ''[UPDATE],'' s = Some r1"
    "group1 is_digit (skip_spaces r1) = Some (ts, r2)"
    "literal '','' r2 = Some r3"
    "group1 is_digit_or_dot (skip_spaces r3) = Some (lat, r)"
    by (auto simp: match_update_at_def split: bind_splits)
  then have "length r1 \<le> length s" "length r2 < length (skip_spaces r1)"
    "length r3 \<le> length r2" "length r < length (skip_spaces r3)"
    by (auto simp: literal_Some dest: group1_length)
  then show ?thesis
    using length_skip_spaces [of r1] length_skip_spaces [of r3] by linarith
qed

lemma match_phase_at_length:
  assumes "match_phase_at s = Some (g, r)"
  shows "length r < length s"
proof -
  from assms obtain r1 nm r2 r3 r4 th r5 r6 r7 el r8 where
    "literal ''Phase:'' s = Some r1"
    "group1 is_word (skip_spaces r1) = Some (nm, r2)"
    "literal '','' r2 = Some r3"
    "literal ''Throughput:'' (skip_spaces r3) = Some r4"
    "group1 is_digit_or_dot (skip_spaces r4) = Some (th, r5)"
    "literal ''ops/sec,'' (skip_spaces r5) = Some r6"
    "literal ''Elapsed:'' (skip_spaces r6) = Some r7"
    "group1 is_digit (skip_spaces r7) = Some (el, r8)"
    "literal ''ms'' r8 = Some r"
    by (auto simp: match_phase_at_def split: bind_splits)
  then have "length r1 \<le> length s" "length r2 < length (skip_spaces r1)"
    "length r3 \<le> length r2"
    "length r4 \<le> length (skip_spaces r3)" "length r5 < length (skip_spaces r4)"
    "length r6 \<le> length (skip_spaces r5)" "length r7 \<le> length (skip_spaces r6)"
    "length r8 < length (skip_spaces r7)" "length r \<le> length r8"
    by (auto simp: literal_Some dest: group1_length)
  then show ?thesis
    using length_skip_spaces [of r1] length_skip_spaces [of r3] length_skip_spaces [of r4]
      length_skip_spaces [of r5] length_skip_spaces [of r6] length_skip_spaces [of r7]
    by linarith
qed

text \<open>
  \<^verbatim>\<open>re.findall(pattern, output)\<close> scans the text from left to right: where the
  pattern matches, the groups are recorded and the scan resumes after the match; where
  it does not, the scan moves on by one character.  Neither pattern matches the empty
  string.  The offset of each match is kept beside its groups.
\<close>

function finditer_update :: "nat \<Rightarrow> string \<Rightarrow> (nat \<times> string \<times> string) list" where
  "finditer_update pos [] = []"
| "finditer_update pos (c # cs) =
     (case match_update_at (c # cs) of
        None \<Rightarrow> finditer_update (Suc pos) cs
      | Some (g, rest) \<Rightarrow>
          (pos, g) # finditer_update (pos + (length (c # cs) - length rest)) rest)"
  by pat_completeness auto
termination
  by (relation "measure (\<lambda>(pos, s). length s)") (auto dest: match_update_at_length)

function finditer_phase :: "nat \<Rightarrow> string \<Rightarrow> (nat \<times> string \<times> string \<times> string) list" where
  "finditer_phase pos [] = []"
| "finditer_phase pos (c # cs) =
     (case match_phase_at (c # cs) of
        None \<Rightarrow> finditer_phase (Suc pos) cs
      | Some (g, rest) \<Rightarrow>
          (pos, g) # finditer_phase (pos + (length (c # cs) - length rest)) rest)"
  by pat_completeness auto
termination
  by (relation "measure (\<lambda>(pos, s). length s)") (auto dest: match_phase_at_length)

definition findall_update :: "string \<Rightarrow> (string \<times> string) list" where
  "findall_update output = map snd (finditer_update 0 output)"

definition findall_phase :: "string \<Rightarrow> (string \<times> string \<times> string) list" where
  "findall_phase output = map snd (finditer_phase 0 output)"

subsection \<open>\<^verbatim>\<open>extract_timeseries_data\<close> and \<^verbatim>\<open>extract_phase_info\<close>\<close>

text \<open>
  The loop over the matches: the body converts the two fields inside
  \<^verbatim>\<open>try\<close>; \<^verbatim>\<open>except ValueError: continue\<close> goes on to the next match, any other
  exception leaves the function.
\<close>

fun collect_timeseries ::
  "nat \<Rightarrow> (string \<times> string) list \<Rightarrow> (int \<times> rat) list \<Rightarrow> py_exn + (int \<times> rat) list" where
  "collect_timeseries maxd [] timeseries_data = Inr timeseries_data"
| "collect_timeseries maxd ((timestamp_str, latency_str) # matches) timeseries_data =
     (case py_int maxd timestamp_str of
        Inl e \<Rightarrow>
          if e = ValueError then collect_timeseries maxd matches timeseries_data else Inl e
      | Inr timestamp \<Rightarrow>
          (case py_float latency_str of
             Inl e \<Rightarrow>
               if e = ValueError then collect_timeseries maxd matches timeseries_data
               else Inl e
           | Inr latency \<Rightarrow>
               collect_timeseries maxd matches (timeseries_data @ [(timestamp, latency)])))"

text \<open>\<^verbatim>\<open>sorted\<close> orders the pairs by timestamp, and by latency where timestamps agree.\<close>

definition extract_timeseries_data :: "nat \<Rightarrow> string \<Rightarrow> py_exn + (int \<times> rat) list" where
  "extract_timeseries_data maxd output =
     (case collect_timeseries maxd (findall_update output) [] of
        Inl e \<Rightarrow> Inl e
      | Inr timeseries_data \<Rightarrow> Inr (sort timeseries_data))"

record phase =
  name :: string
  throughput :: rat
  elapsed :: int

fun collect_phases ::
  "nat \<Rightarrow> (string \<times> string \<times> string) list \<Rightarrow> phase list \<Rightarrow> py_exn + phase list" where
  "collect_phases maxd [] phases = Inr phases"
| "collect_phases maxd ((phase_name, throughput_str, elapsed_str) # matches) phases =
     (case py_float throughput_str of
        Inl e \<Rightarrow> if e = ValueError then collect_phases maxd matches phases else Inl e
      | Inr thr \<Rightarrow>
          (case py_int maxd elapsed_str of
             Inl e \<Rightarrow> if e = ValueError then collect_phases maxd matches phases else Inl e
           | Inr el \<Rightarrow>
               collect_phases maxd matches
                 (phases @ [\<lparr>name = phase_name, throughput = thr, elapsed = el\<rparr>])))"

definition extract_phase_info :: "nat \<Rightarrow> string \<Rightarrow> py_exn + phase list" where
  "extract_phase_info maxd output = collect_phases maxd (findall_phase output) []"

subsection \<open>The analyser, its environment and its effects\<close>

record run_result =
  run_id :: int
  timeseries :: "(int \<times> rat) list"
  phases :: "phase list"
  timestamp :: string

record analyzer =
  test_script :: string
  num_runs :: int
  results :: "run_result list"

definition init :: "string \<Rightarrow> int \<Rightarrow> analyzer" where
  "init script_path n = \<lparr>test_script = script_path, num_runs = n, results = []\<rparr>"

text \<open>
  What \<^verbatim>\<open>subprocess.run([test_script], capture_output=True, text=True, timeout=300)\<close>
  does in one run: the script exits with a return code and its two captured streams,
  or the timeout expires (\<^verbatim>\<open>subprocess.TimeoutExpired\<close>), or the call raises
  another \<^verbatim>\<open>Exception\<close> (its text is kept), or the user interrupts it
  (\<^verbatim>\<open>KeyboardInterrupt\<close>, which is not an \<^verbatim>\<open>Exception\<close>).
\<close>

datatype outcome =
    Exited int string string
  | TimedOut
  | Raised string
  | Interrupted

record env =
  script_outcome :: "nat \<Rightarrow> outcome"
  clock :: "nat \<Rightarrow> string"
  path_exists :: "string \<Rightarrow> bool"
  int_max_str_digits :: nat

text \<open>
  \<open>script_outcome env i\<close> is what the run with index \<open>i\<close> does, \<open>clock env i\<close> is
  \<^verbatim>\<open>datetime.now().isoformat()\<close> read in the iteration with index \<open>i\<close>.

  The effects, in the order they happen.  \<open>Exec\<close> is the call of
  \<^verbatim>\<open>subprocess.run\<close> with its timeout in seconds, \<open>Sleep\<close> is \<^verbatim>\<open>time.sleep\<close>,
  \<open>Chmod\<close> is \<^verbatim>\<open>os.chmod\<close>.  \<open>Summary\<close> stands for the block of statistics
  lines of \<^verbatim>\<open>print_summary\<close>, \<open>Save_figure\<close> and \<open>Show_figure\<close> for
  \<^verbatim>\<open>plt.savefig\<close> and \<^verbatim>\<open>plt.show\<close>, \<open>Write_json\<close> for \<^verbatim>\<open>json.dump\<close> into
  the named file, \<open>Print_analysis_error\<close> for
  \<^verbatim>\<open>print(f"Error during analysis: {e}")\<close>.  Failures of \<^verbatim>\<open>os.chmod\<close>, of writing
  the file and of plotting are not modelled.
\<close>

datatype event =
    Print string
  | Exec string nat
  | Sleep nat
  | Chmod string nat
  | Write_json string "run_result list"
  | Summary "run_result list"
  | Save_figure string
  | Show_figure
  | Print_analysis_error py_exn

fun str_nat :: "nat \<Rightarrow> string" where
  "str_nat n =
     (if n < 10 then [char_of (48 + n)]
      else str_nat (n div 10) @ [char_of (48 + n mod 10)])"

declare str_nat.simps [simp del]

definition str_int :: "int \<Rightarrow> string" where
  "str_int i = (if i < 0 then CHR ''-'' # str_nat (nat (- i)) else str_nat (nat i))"

definition msg_running :: "nat \<Rightarrow> int \<Rightarrow> string" where
  "msg_running i n = ''Running test '' @ str_int (int i + 1) @ ''/'' @ str_int n @ ''...''"

definition msg_failed :: "nat \<Rightarrow> int \<Rightarrow> string" where
  "msg_failed i returncode =
     ''Test '' @ str_int (int i + 1) @ '' failed with return code '' @ str_int returncode"

definition msg_stderr :: "string \<Rightarrow> string" where
  "msg_stderr err = ''Error output: '' @ err"

definition msg_timed_out :: "nat \<Rightarrow> string" where
  "msg_timed_out i = ''Test '' @ str_int (int i + 1) @ '' timed out''"

definition msg_error :: "nat \<Rightarrow> string \<Rightarrow> string" where
  "msg_error i e = ''Error running test '' @ str_int (int i + 1) @ '': '' @ e"

definition msg_starting :: "int \<Rightarrow> string" where
  "msg_starting n = ''Starting '' @ str_int n @ '' test runs...''"

definition msg_completed :: "nat \<Rightarrow> nat \<Rightarrow> string" where
  "msg_completed i k =
     ''Test '' @ str_int (int i + 1) @ '' completed: '' @ str_nat k @ '' data points''"

definition msg_no_data :: "nat \<Rightarrow> string" where
  "msg_no_data i =
     ''Test '' @ str_int (int i + 1) @ '' completed but no time series data found''"

definition msg_waiting :: string where
  "msg_waiting = ''Waiting 10 seconds before next test...''"

definition msg_not_found :: "string \<Rightarrow> string" where
  "msg_not_found script_path =
     ''Error: Test script '' @ [CHR 0x27] @ script_path @ [CHR 0x27] @ '' not found''"

subsection \<open>\<^verbatim>\<open>run_single_test\<close>\<close>

text \<open>
  The effects of one run and what the method returns: the captured output, \<^verbatim>\<open>None\<close>,
  or an exception that none of its handlers catches.
\<close>

definition run_single_test ::
  "env \<Rightarrow> analyzer \<Rightarrow> nat \<Rightarrow> event list \<times> (py_exn + string option)" where
  "run_single_test e self i =
     (let started = [Print (msg_running i (num_runs self)), Exec (test_script self) 300]
      in case script_outcome e i of
           Exited returncode out err \<Rightarrow>
             if returncode \<noteq> 0
             then (started @ [Print (msg_failed i returncode), Print (msg_stderr err)],
                   Inr None)
             else (started, Inr (Some out))
         | TimedOut \<Rightarrow> (started @ [Print (msg_timed_out i)], Inr None)
         | Raised text \<Rightarrow> (started @ [Print (msg_error i text)], Inr None)
         | Interrupted \<Rightarrow> (started, Inl KeyboardInterrupt))"

subsection \<open>\<^verbatim>\<open>run_all_tests\<close>\<close>

text \<open>
  One iteration of the \<^verbatim>\<open>for\<close> loop, on the analyser and the effects so far.  The
  first component is the exception that leaves the loop, if any.
\<close>

definition run_iteration ::
  "env \<Rightarrow> nat \<Rightarrow> analyzer \<times> event list \<Rightarrow> py_exn option \<times> analyzer \<times> event list" where
  "run_iteration e i st =
     (case st of (self, tr) \<Rightarrow>
      case run_single_test e self i of (ev, r) \<Rightarrow>
      case r of
        Inl x \<Rightarrow> (Some x, self, tr @ ev)
      | Inr None \<Rightarrow> (None, self, tr @ ev)
      | Inr (Some out) \<Rightarrow>
          (case extract_timeseries_data (int_max_str_digits e) out of
             Inl x \<Rightarrow> (Some x, self, tr @ ev)
           | Inr timeseries_data \<Rightarrow>
               (case extract_phase_info (int_max_str_digits e) out of
                  Inl x \<Rightarrow> (Some x, self, tr @ ev)
                | Inr phase_info \<Rightarrow>
                    (let (self', ev') =
                           (if timeseries_data \<noteq> []
                            then (self\<lparr>results := results self @
                                     [\<lparr>run_id = int i + 1, timeseries = timeseries_data,
                                       phases = phase_info, timestamp = clock e i\<rparr>]\<rparr>,
                                  [Print (msg_completed i (length timeseries_data))])
                            else (self, [Print (msg_no_data i)]));
                         wait =
                           (if int i < num_runs self - 1
                            then [Print msg_waiting, Sleep 10] else [])
                     in (None, self', tr @ ev @ ev' @ wait)))))"

fun run_loop ::
  "env \<Rightarrow> nat list \<Rightarrow> analyzer \<times> event list \<Rightarrow> py_exn option \<times> analyzer \<times> event list" where
  "run_loop e [] st = (None, st)"
| "run_loop e (i # is) st =
     (case run_iteration e i st of
        (Some x, st') \<Rightarrow> (Some x, st')
      | (None, st') \<Rightarrow> run_loop e is st')"

text \<open>\<^verbatim>\<open>for i in range(self.num_runs)\<close>, after the first message.\<close>

definition run_all_tests ::
  "env \<Rightarrow> analyzer \<Rightarrow> py_exn option \<times> analyzer \<times> event list" where
  "run_all_tests e self =
     run_loop e [0..<nat (num_runs self)] (self, [Print (msg_starting (num_runs self))])"

subsection \<open>Reporting and \<^verbatim>\<open>main\<close>\<close>

definition save_raw_data :: "analyzer \<Rightarrow> event list" where
  "save_raw_data self =
     [Write_json ''latency_data.json'' (results self),
      Print ''Raw data saved to latency_data.json'']"

definition print_summary :: "analyzer \<Rightarrow> event list" where
  "print_summary self =
     (if results self = [] then [Print ''No data to summarize''] else [Summary (results self)])"

definition plot_latency_over_time :: "analyzer \<Rightarrow> event list" where
  "plot_latency_over_time self =
     (if results self = [] then [Print ''No data to plot'']
      else [Save_figure ''latency_analysis.png'',
            Print ''Plot saved to latency_analysis.png'', Show_figure])"

definition plot_average_latency :: "analyzer \<Rightarrow> event list" where
  "plot_average_latency self =
     (if results self = [] then [Print ''No data to plot'']
      else [Save_figure ''average_latency.png'',
            Print ''Average plot saved to average_latency.png'', Show_figure])"

text \<open>The file mode \<^verbatim>\<open>0o755\<close>.\<close>

definition mode_755 :: nat where
  "mode_755 = 7 * 64 + 5 * 8 + 5"

record args =
  runs :: int
  script :: string
  no_plot :: bool

text \<open>
  \<^verbatim>\<open>main\<close> after the command line is parsed: the effects and the exit code of the
  process.  \<^verbatim>\<open>sys.exit(1)\<close> ends the process with code 1, returning from \<^verbatim>\<open>main\<close>
  with code 0.
\<close>

definition main :: "env \<Rightarrow> args \<Rightarrow> event list \<times> int" where
  "main e a =
     (if \<not> path_exists e (script a) then ([Print (msg_not_found (script a))], 1)
      else
        (case run_all_tests e (init (script a) (runs a)) of
           (Some x, self, tr) \<Rightarrow>
             (if x = KeyboardInterrupt
              then (Chmod (script a) mode_755 # tr @
                      [Print (CHR 0x0A # ''Analysis interrupted by user'')], 1)
              else (Chmod (script a) mode_755 # tr @ [Print_analysis_error x], 1))
         | (None, self, tr) \<Rightarrow>
             (Chmod (script a) mode_755 # tr @ save_raw_data self @ print_summary self @
                (if no_plot a then []
                 else plot_latency_over_time self @ plot_average_latency self), 0)))"

subsection \<open>What a match contributes\<close>

text \<open>
  The record that a match yields when both of its numeric fields convert, and nothing
  when one of the conversions raises.
\<close>

definition update_of_match :: "nat \<Rightarrow> string \<times> string \<Rightarrow> (int \<times> rat) option" where
  "update_of_match maxd m =
     (case py_int maxd (fst m) of
        Inl e \<Rightarrow> None
      | Inr t \<Rightarrow> (case py_float (snd m) of Inl e \<Rightarrow> None | Inr l \<Rightarrow> Some (t, l)))"

definition phase_of_match :: "nat \<Rightarrow> string \<times> string \<times> string \<Rightarrow> phase option" where
  "phase_of_match maxd m =
     (case py_float (fst (snd m)) of
        Inl e \<Rightarrow> None
      | Inr thr \<Rightarrow>
          (case py_int maxd (snd (snd m)) of
             Inl e \<Rightarrow> None
           | Inr el \<Rightarrow> Some \<lparr>name = fst m, throughput = thr, elapsed = el\<rparr>))"

subsection \<open>Example texts\<close>

text \<open>
  A captured output with three update records, the second with a latency of two dots,
  and two phase records, the first with a throughput of two dots.
\<close>

definition sample_output :: string where
  "sample_output =
     ''[UPDATE], 10, 2.5 [UPDATE], 3, 4.5.6 Phase: A, Throughput: 1..5 ops/sec, '' @
     ''Elapsed: 7ms Phase: B, Throughput: 2.5 ops/sec, Elapsed: 9ms [UPDATE], 3, 7''"


subsection \<open>Notions of the statements about the runs\<close>

text \<open>
  The first two effects of every run; the outcomes after which \<^verbatim>\<open>run_single_test\<close>
  returns \<^verbatim>\<open>None\<close> (a non-zero return code, a timeout, an \<^verbatim>\<open>Exception\<close>) and what
  is printed then; and the run with index \<open>i\<close> as the origin of a result entry: that run
  exited with code 0, and the entry holds its number \<open>i + 1\<close>, what the two extractions
  return on its output, and the clock of its iteration.
\<close>

definition started :: "analyzer \<Rightarrow> nat \<Rightarrow> event list" where
  "started self i = [Print (msg_running i (num_runs self)), Exec (test_script self) 300]"

definition failed_outcome :: "outcome \<Rightarrow> bool" where
  "failed_outcome oc =
     (case oc of Exited returncode out err \<Rightarrow> returncode \<noteq> 0 | TimedOut \<Rightarrow> True
      | Raised text \<Rightarrow> True | Interrupted \<Rightarrow> False)"

definition failure_log :: "nat \<Rightarrow> outcome \<Rightarrow> event list" where
  "failure_log i oc =
     (case oc of
        Exited returncode out err \<Rightarrow> [Print (msg_failed i returncode), Print (msg_stderr err)]
      | TimedOut \<Rightarrow> [Print (msg_timed_out i)]
      | Raised text \<Rightarrow> [Print (msg_error i text)]
      | Interrupted \<Rightarrow> [])"

definition produced_by :: "env \<Rightarrow> nat \<Rightarrow> run_result \<Rightarrow> bool" where
  "produced_by e i r =
     (case script_outcome e i of
        Exited returncode out err \<Rightarrow>
          returncode = 0 \<and> run_id r = int i + 1
          \<and> extract_timeseries_data (int_max_str_digits e) out = Inr (timeseries r)
          \<and> extract_phase_info (int_max_str_digits e) out = Inr (phases r)
          \<and> timestamp r = clock e i
      | _ \<Rightarrow> False)"

definition results_after :: "env \<Rightarrow> analyzer \<Rightarrow> run_result list" where
  "results_after e self = results (fst (snd (run_all_tests e self)))"

definition trace_of :: "env \<Rightarrow> analyzer \<Rightarrow> event list" where
  "trace_of e self = snd (snd (run_all_tests e self))"

text \<open>
  An environment for the examples: the first run exits with code 1, the second prints
  \<open>sample_output\<close>, the third prints no update record, the fourth times out, every
  later one cannot be started.  Only \<^verbatim>\<open>./test.sh\<close> exists.
\<close>

definition sample_env :: env where
  "sample_env =
     \<lparr>script_outcome =
        (\<lambda>i. if i = 0 then Exited 1 [] ''boom''
             else if i = 1 then Exited 0 sample_output []
             else if i = 2 then Exited 0 ''[OVERALL], RunTime(ms), 50000'' []
             else if i = 3 then TimedOut
             else Raised ''[Errno 13] Permission denied''),
      clock = (\<lambda>i. ''2024-01-01T00:00:0'' @ str_nat i),
      path_exists = (\<lambda>p. p = ''./test.sh''),
      int_max_str_digits = 4300\<rparr>"

subsection \<open>Lines of the captured text\<close>

text \<open>
  The lines of a text are the pieces between its newline characters
  (\<^verbatim>\<open>output.split("\n")\<close>), and \<open>join_lines\<close> puts them together again.
\<close>

fun split_lines :: "string \<Rightarrow> string list" where
  "split_lines [] = [[]]"
| "split_lines (c # cs) =
     (if c = CHR 0x0A then [] # split_lines cs
      else (case split_lines cs of [] \<Rightarrow> [[c]] | l # ls \<Rightarrow> (c # l) # ls))"

fun join_lines :: "string list \<Rightarrow> string" where
  "join_lines [] = []"
| "join_lines [l] = l"
| "join_lines (l # ls) = l @ CHR 0x0A # join_lines ls"

text \<open>
  The lines of a text that match the record format with well-formed numeric fields:
  those from which, taken alone, \<^verbatim>\<open>extract_timeseries_data\<close> extracts a pair.
\<close>

definition matching_lines :: "nat \<Rightarrow> string \<Rightarrow> string list" where
  "matching_lines maxd output =
     filter (\<lambda>l. extract_timeseries_data maxd l \<noteq> Inr []) (split_lines output)"

text \<open>
  An attempt of the update pattern at the start of \<open>s\<close> is blocked when it fails at a
  character of \<open>s\<close>: a character differs from the literal \<^verbatim>\<open>[UPDATE],\<close>, or the first
  character after the literal and the white space is not a digit, or the character
  after the digits is not a comma, or the first character after the comma and the white
  space is neither a digit nor a dot.  An attempt that fails because \<open>s\<close> ends is not
  blocked: on a longer text it could go on.
\<close>

fun literal_blocked :: "string \<Rightarrow> string \<Rightarrow> bool" where
  "literal_blocked [] s = False"
| "literal_blocked (p # ps) [] = False"
| "literal_blocked (p # ps) (c # cs) = (if p = c then literal_blocked ps cs else True)"

definition update_blocked :: "string \<Rightarrow> bool" where
  "update_blocked s =
     (literal_blocked ''[UPDATE],'' s \<or>
      (case literal ''[UPDATE],'' s of
         None \<Rightarrow> False
       | Some r1 \<Rightarrow>
           skip_spaces r1 \<noteq> [] \<and>
           (case group1 is_digit (skip_spaces r1) of
              None \<Rightarrow> True
            | Some (ts, r2) \<Rightarrow>
                r2 \<noteq> [] \<and>
                (case literal '','' r2 of
                   None \<Rightarrow> True
                 | Some r3 \<Rightarrow>
                     skip_spaces r3 \<noteq> [] \<and>
                     group1 is_digit_or_dot (skip_spaces r3) = None))))"

text \<open>
  A line is closed when the scan of \<^verbatim>\<open>re.findall\<close> over it never runs over its end:
  every attempt in the line is blocked or matches.
\<close>

function closed_line :: "string \<Rightarrow> bool" where
  "closed_line [] = True"
| "closed_line (c # cs) =
     (case match_update_at (c # cs) of
        None \<Rightarrow> update_blocked (c # cs) \<and> closed_line cs
      | Some (g, rest) \<Rightarrow> closed_line rest)"
  by pat_completeness auto
termination
  by (relation "measure length") (auto dest: match_update_at_length)

text \<open>
  The pair of a line that holds one match with well-formed fields, and the texts whose
  lines are all closed and hold at most one match each.
\<close>

definition line_record :: "nat \<Rightarrow> string \<Rightarrow> (int \<times> rat) option" where
  "line_record maxd l = (case findall_update l of [g] \<Rightarrow> update_of_match maxd g | _ \<Rightarrow> None)"

definition one_record_per_line :: "string \<Rightarrow> bool" where
  "one_record_per_line output =
     list_all (\<lambda>l. closed_line l \<and> length (findall_update l) \<le> 1) (split_lines output)"

text \<open>
  One line with two records; a record spread over three lines; and the output of a
  run: a record, two lines of statistics, an indented record with a unit, a record
  with a malformed latency, all ended by newlines.
\<close>

definition two_records_on_a_line :: string where
  "two_records_on_a_line = ''[UPDATE], 1, 2 [UPDATE], 3, 4''"

definition record_across_lines :: string where
  "record_across_lines = ''[UPDATE],'' @ [CHR 0x0A] @ ''5,'' @ [CHR 0x0A] @ ''3''"

definition sample_lines :: string where
  "sample_lines =
     ''[UPDATE], 20, 1.5'' @ [CHR 0x0A] @
     ''[UPDATE], Operations, 1000'' @ [CHR 0x0A] @
     ''[OVERALL], RunTime(ms), 50000'' @ [CHR 0x0A] @
     '' [UPDATE], 10, 2.5 us'' @ [CHR 0x0A] @
     ''[UPDATE], 15, 1.2.3'' @ [CHR 0x0A]"

section \<open>Properties\<close>

subsection \<open>The extraction loops\<close>

lemma py_int_raises: "py_int maxd s = Inl e \<Longrightarrow> e = ValueError"
  by (auto simp: py_int_def split: if_splits)

lemma py_float_raises: "py_float s = Inl e \<Longrightarrow> e = ValueError"
  by (auto simp: py_float_def Let_def split: if_splits list.splits)

lemma collect_timeseries_eq:
  "collect_timeseries maxd ms acc = Inr (acc @ List.map_filter (update_of_match maxd) ms)"
proof (induction ms arbitrary: acc)
  case Nil
  show ?case by (simp add: List.map_filter_simps)
next
  case (Cons m ms)
  obtain ts lat where m: "m = (ts, lat)" by (cases m)
  show ?case
    using Cons.IH
    by (auto simp: m update_of_match_def List.map_filter_simps
        dest: py_int_raises py_float_raises split: sum.splits)
qed

lemma collect_phases_eq:
  "collect_phases maxd ms acc = Inr (acc @ List.map_filter (phase_of_match maxd) ms)"
proof (induction ms arbitrary: acc)
  case Nil
  show ?case by (simp add: List.map_filter_simps)
next
  case (Cons m ms)
  obtain nm thr el where m: "m = (nm, thr, el)" by (cases m)
  show ?case
    using Cons.IH
    by (auto simp: m phase_of_match_def List.map_filter_simps
        dest: py_int_raises py_float_raises split: sum.splits)
qed

lemma extract_timeseries_data_eq:
  "extract_timeseries_data maxd output =
     Inr (sort (List.map_filter (update_of_match maxd) (findall_update output)))"
  by (simp add: extract_timeseries_data_def collect_timeseries_eq)

lemma extract_phase_info_eq:
  "extract_phase_info maxd output =
     Inr (List.map_filter (phase_of_match maxd) (findall_phase output))"
  by (simp add: extract_phase_info_def collect_phases_eq)

lemma digit_val_nonneg: "is_digit c \<Longrightarrow> 0 \<le> digit_val c"
  by (simp add: is_digit_def digit_val_def)

lemma foldl_dec_nonneg:
  "list_all is_digit s \<Longrightarrow> 0 \<le> a \<Longrightarrow> 0 \<le> foldl (\<lambda>a c. 10 * a + digit_val c) a s"
  by (induction s arbitrary: a) (auto simp: digit_val_nonneg)

lemma dec_value_nonneg: "list_all is_digit s \<Longrightarrow> 0 \<le> dec_value s"
  by (simp add: dec_value_def foldl_dec_nonneg)

lemma py_int_nonneg: "py_int maxd s = Inr t \<Longrightarrow> 0 \<le> t"
  by (auto simp: py_int_def dec_value_nonneg split: if_splits)

lemma py_float_nonneg: "py_float s = Inr l \<Longrightarrow> 0 \<le> l"
proof -
  assume a: "py_float s = Inr l"
  have ip: "list_all is_digit (takeWhile is_digit s)"
    by (simp add: list_all_iff) (meson set_takeWhileD)
  show ?thesis
  proof (cases "dropWhile is_digit s")
    case Nil
    with a have "l = of_int (dec_value (takeWhile is_digit s))"
      by (auto simp: py_float_def Let_def split: if_splits)
    with ip show ?thesis by (simp add: dec_value_nonneg)
  next
    case (Cons c fp)
    with a have l: "l = of_int (dec_value (takeWhile is_digit s @ fp)) / 10 ^ length fp"
      and fp: "list_all is_digit fp"
      by (auto simp: py_float_def Let_def split: if_splits)
    from ip fp have "0 \<le> dec_value (takeWhile is_digit s @ fp)"
      by (simp add: dec_value_nonneg)
    with l show ?thesis by simp
  qed
qed

lemma update_of_match_nonneg:
  "update_of_match maxd m = Some (t, l) \<Longrightarrow> 0 \<le> t \<and> 0 \<le> l"
  by (auto simp: update_of_match_def split: sum.splits dest: py_int_nonneg py_float_nonneg)

subsection \<open>Matches and their offsets\<close>


lemma group1_Some:
  "group1 cls s = Some (g, r) \<longleftrightarrow> g \<noteq> [] \<and> g = takeWhile cls s \<and> r = dropWhile cls s"
  by (auto simp: group1_def)

lemma group1_suffix: "group1 cls s = Some (g, r) \<Longrightarrow> s = g @ r"
  by (simp add: group1_Some)

lemma group1_all: "group1 cls s = Some (g, r) \<Longrightarrow> g \<noteq> [] \<and> list_all cls g"
  by (auto simp: group1_Some list_all_iff dest: set_takeWhileD)

lemma match_update_at_groups:
  assumes "match_update_at s = Some ((ts, lat), r)"
  shows "ts \<noteq> [] \<and> list_all is_digit ts \<and> lat \<noteq> [] \<and> list_all is_digit_or_dot lat"
  using assms
  by (auto simp: match_update_at_def split: bind_splits dest: group1_all)





lemma finditer_update_matches:
  "(i, g) \<in> set (finditer_update pos s) \<Longrightarrow> \<exists>t r. match_update_at t = Some (g, r)"
proof (induction pos s rule: finditer_update.induct)
  case (1 pos)
  then show ?case by simp
next
  case (2 pos c cs)
  then show ?case
    by (cases "match_update_at (c # cs)") (auto simp del: length_Cons)
qed

lemma findall_update_groups:
  assumes "(a, b) \<in> set (findall_update output)"
  shows "a \<noteq> [] \<and> list_all is_digit a \<and> b \<noteq> [] \<and> list_all is_digit_or_dot b"
proof -
  from assms obtain i where "(i, a, b) \<in> set (finditer_update 0 output)"
    by (auto simp: findall_update_def)
  then obtain t r where "match_update_at t = Some ((a, b), r)"
    using finditer_update_matches by blast
  then show ?thesis by (rule match_update_at_groups)
qed

lemma in_set_map_filter:
  "y \<in> set (List.map_filter f xs) \<longleftrightarrow> (\<exists>x \<in> set xs. f x = Some y)"
  by (induction xs) (auto simp: List.map_filter_simps split: option.splits)

subsection \<open>The loop over the runs\<close>

lemma run_single_test_failed:
  "failed_outcome (script_outcome e i) \<Longrightarrow>
     run_single_test e self i = (started self i @ failure_log i (script_outcome e i), Inr None)"
  by (auto simp: run_single_test_def failed_outcome_def failure_log_def started_def
      split: outcome.splits)

lemma run_iteration_failed:
  "failed_outcome (script_outcome e i) \<Longrightarrow>
     run_iteration e i (self, tr) =
       (None, self, tr @ started self i @ failure_log i (script_outcome e i))"
  by (simp add: run_iteration_def run_single_test_failed)

lemma run_iteration_output:
  assumes "script_outcome e i = Exited 0 out err"
  shows "run_iteration e i (self, tr) =
    (case extract_timeseries_data (int_max_str_digits e) out of
       Inl x \<Rightarrow> (Some x, self, tr @ started self i)
     | Inr timeseries_data \<Rightarrow>
         (case extract_phase_info (int_max_str_digits e) out of
            Inl x \<Rightarrow> (Some x, self, tr @ started self i)
          | Inr phase_info \<Rightarrow>
              (None,
               (if timeseries_data \<noteq> []
                then self\<lparr>results := results self @
                       [\<lparr>run_id = int i + 1, timeseries = timeseries_data,
                         phases = phase_info, timestamp = clock e i\<rparr>]\<rparr>
                else self),
               tr @ started self i @
               (if timeseries_data \<noteq> []
                then [Print (msg_completed i (length timeseries_data))]
                else [Print (msg_no_data i)]) @
               (if int i < num_runs self - 1 then [Print msg_waiting, Sleep 10] else []))))"
  using assms
  by (auto simp: run_iteration_def run_single_test_def started_def Let_def split: sum.splits)

lemma run_iteration_cases:
  assumes "run_iteration e i (self, tr) = (x, self', tr')"
  shows "test_script self' = test_script self \<and> num_runs self' = num_runs self
    \<and> (\<exists>ev. tr' = tr @ ev)
    \<and> (results self' = results self
        \<or> (\<exists>r. results self' = results self @ [r] \<and> produced_by e i r \<and> timeseries r \<noteq> []))"
proof (cases "script_outcome e i")
  case (Exited rc out err)
  show ?thesis
  proof (cases "rc = 0")
    case True
    with Exited have oc: "script_outcome e i = Exited 0 out err" by simp
    obtain ts where ts: "extract_timeseries_data (int_max_str_digits e) out = Inr ts"
      by (simp add: extract_timeseries_data_eq)
    obtain ph where ph: "extract_phase_info (int_max_str_digits e) out = Inr ph"
      by (simp add: extract_phase_info_eq)
    from assms show ?thesis
      unfolding run_iteration_output [OF oc] ts ph
      by (cases "ts = []") (auto simp: produced_by_def oc ts ph)
  next
    case False
    with Exited have "failed_outcome (script_outcome e i)"
      by (simp add: failed_outcome_def)
    from run_iteration_failed [OF this] assms show ?thesis by auto
  qed
next
  case TimedOut
  then have "failed_outcome (script_outcome e i)"
    by (simp add: failed_outcome_def)
  from run_iteration_failed [OF this] assms show ?thesis by auto
next
  case (Raised msg)
  then have "failed_outcome (script_outcome e i)"
    by (simp add: failed_outcome_def)
  from run_iteration_failed [OF this] assms show ?thesis by auto
next
  case Interrupted
  with assms show ?thesis
    by (auto simp: run_iteration_def run_single_test_def)
qed

lemma run_loop_appends:
  assumes "run_loop e js (self, tr) = (x, self', tr')"
  shows "test_script self' = test_script self \<and> num_runs self' = num_runs self
    \<and> (\<exists>ev. tr' = tr @ ev)
    \<and> (\<exists>new. results self' = results self @ new
          \<and> (\<forall>r \<in> set new. timeseries r \<noteq> []
                \<and> (\<exists>i \<in> set js. produced_by e i r))
          \<and> (sorted_wrt (<) js \<longrightarrow> sorted_wrt (<) (map run_id new)))"
  using assms
proof (induction js arbitrary: self tr)
  case Nil
  then show ?case by simp
next
  case (Cons j js)
  obtain y self1 tr1 where it: "run_iteration e j (self, tr) = (y, self1, tr1)"
    by (metis prod_cases3)
  note c = run_iteration_cases [OF it]
  show ?case
  proof (cases y)
    case (Some ex)
    with Cons.prems it have eq: "self' = self1" "tr' = tr1" by auto
    from c consider (same) "results self1 = results self"
      | (one) r where "results self1 = results self @ [r]" "produced_by e j r" "timeseries r \<noteq> []"
      by blast
    then have "\<exists>new. results self1 = results self @ new
          \<and> (\<forall>r \<in> set new. timeseries r \<noteq> [] \<and> (\<exists>i \<in> set (j # js). produced_by e i r))
          \<and> (sorted_wrt (<) (j # js) \<longrightarrow> sorted_wrt (<) (map run_id new))"
    proof cases
      case same
      then show ?thesis by (intro exI [of _ "[]"]) simp
    next
      case one
      then show ?thesis by (intro exI [of _ "[r]"]) simp
    qed
    with c eq show ?thesis by blast
  next
    case None
    with Cons.prems it have loop: "run_loop e js (self1, tr1) = (x, self', tr')" by simp
    from Cons.IH [OF loop] obtain ev new where ih:
      "test_script self' = test_script self1" "num_runs self' = num_runs self1"
      "tr' = tr1 @ ev" "results self' = results self1 @ new"
      "\<forall>r \<in> set new. timeseries r \<noteq> [] \<and> (\<exists>i \<in> set js. produced_by e i r)"
      "sorted_wrt (<) js \<longrightarrow> sorted_wrt (<) (map run_id new)"
      by blast
    from c have hd: "test_script self1 = test_script self" "num_runs self1 = num_runs self"
      "\<exists>ev. tr1 = tr @ ev" by auto
    from c consider (same) "results self1 = results self"
      | (one) r where "results self1 = results self @ [r]" "produced_by e j r" "timeseries r \<noteq> []"
      by blast
    then show ?thesis
    proof cases
      case same
      with ih hd show ?thesis
        by (auto intro!: exI [of _ new])
    next
      case one
      have less: "sorted_wrt (<) (j # js) \<Longrightarrow> \<forall>r' \<in> set new. run_id r < run_id r'"
      proof
        fix r' assume s: "sorted_wrt (<) (j # js)" and r': "r' \<in> set new"
        with ih(5) obtain i where "i \<in> set js" "produced_by e i r'" by blast
        moreover from s \<open>i \<in> set js\<close> have "j < i" by simp
        ultimately show "run_id r < run_id r'"
          using one(2) by (auto simp: produced_by_def split: outcome.splits)
      qed
      have "results self' = results self @ (r # new)"
        using ih(4) one(1) by simp
      moreover have "\<forall>r' \<in> set (r # new). timeseries r' \<noteq> []
          \<and> (\<exists>i \<in> set (j # js). produced_by e i r')"
        using ih(5) one by auto
      moreover have "sorted_wrt (<) (j # js) \<longrightarrow> sorted_wrt (<) (map run_id (r # new))"
        using ih(6) less by auto
      ultimately show ?thesis
        using ih(1,2,3) hd by (metis append.assoc)
    qed
  qed
qed

lemma run_all_tests_appends:
  "\<exists>new. results_after e self = results self @ new
     \<and> (\<forall>r \<in> set new. timeseries r \<noteq> []
           \<and> (\<exists>i < nat (num_runs self). produced_by e i r))
     \<and> sorted_wrt (<) (map run_id new)"
proof -
  obtain x self' tr' where r: "run_all_tests e self = (x, self', tr')"
    by (metis prod_cases3)
  then have "run_loop e [0..<nat (num_runs self)] (self, [Print (msg_starting (num_runs self))])
      = (x, self', tr')"
    by (simp add: run_all_tests_def)
  from run_loop_appends [OF this] obtain new where
    "results self' = results self @ new"
    "\<forall>r \<in> set new. timeseries r \<noteq> [] \<and> (\<exists>i \<in> set [0..<nat (num_runs self)]. produced_by e i r)"
    "sorted_wrt (<) (map run_id new)"
    by auto
  moreover have "results_after e self = results self'"
    using r by (simp add: results_after_def)
  ultimately show ?thesis
    by (intro exI [of _ new]) (fastforce simp: Bex_def)
qed

lemma produced_by_run_id: "produced_by e i r \<Longrightarrow> run_id r = int i + 1"
  by (auto simp: produced_by_def split: outcome.splits)



subsection \<open>The scan of a text line by line\<close>

lemma literal_append: "literal p s = Some r \<Longrightarrow> literal p (s @ u) = Some (r @ u)"
  by (simp add: literal_Some)

lemma literal_blocked_append: "literal_blocked p s \<Longrightarrow> literal p (s @ u) = None"
  by (induction p s rule: literal_blocked.induct) (auto split: if_splits)

lemma literal_blocked_None: "literal_blocked p s \<Longrightarrow> literal p s = None"
  using literal_blocked_append [of p s "[]"] by simp

lemma literal_char_None_append:
  "literal [p] s = None \<Longrightarrow> s \<noteq> [] \<Longrightarrow> literal [p] (s @ u) = None"
  by (cases s) (auto split: if_splits)

lemma dropWhile_nonempty: "dropWhile P s \<noteq> [] \<Longrightarrow> \<exists>x \<in> set s. \<not> P x"
  by (metis dropWhile_eq_Nil_conv)

lemma skip_spaces_append: "skip_spaces s \<noteq> [] \<Longrightarrow> skip_spaces (s @ u) = skip_spaces s @ u"
  unfolding skip_spaces_def using dropWhile_nonempty dropWhile_append1 by metis

lemma group1_append:
  assumes "group1 cls s = Some (g, r)" and "r \<noteq> []"
  shows "group1 cls (s @ u) = Some (g, r @ u)"
proof -
  from assms have g: "g = takeWhile cls s" "r = dropWhile cls s" "takeWhile cls s \<noteq> []"
    by (auto simp: group1_Some)
  with assms(2) obtain x where "x \<in> set s" "\<not> cls x"
    using dropWhile_nonempty by metis
  then have "takeWhile cls (s @ u) = takeWhile cls s" "dropWhile cls (s @ u) = dropWhile cls s @ u"
    by (simp_all add: takeWhile_append1 dropWhile_append1)
  with g show ?thesis by (simp add: group1_def)
qed

lemma group1_append_end:
  assumes "group1 cls s = Some (g, [])" and "u = [] \<or> \<not> cls (hd u)"
  shows "group1 cls (s @ u) = Some (g, u)"
proof -
  from assms(1) have g: "g = takeWhile cls s" "dropWhile cls s = []" "takeWhile cls s \<noteq> []"
    by (auto simp: group1_Some)
  then have all: "\<And>x. x \<in> set s \<Longrightarrow> cls x"
    by (simp add: dropWhile_eq_Nil_conv)
  from assms(2) have u: "takeWhile cls u = []" "dropWhile cls u = u"
    by (cases u; auto)+
  have 1: "takeWhile cls (s @ u) = s"
    using all u by (simp add: takeWhile_append2)
  have 2: "dropWhile cls (s @ u) = u"
    using all u by (simp add: dropWhile_append2)
  from all have "takeWhile cls s = s"
    by (simp add: takeWhile_eq_all_conv)
  with g have 3: "g = s" "s \<noteq> []" by auto
  show ?thesis by (simp add: group1_def 1 2 3)
qed

lemma group1_None_append:
  assumes "group1 cls s = None" and "s \<noteq> []"
  shows "group1 cls (s @ u) = None"
proof -
  from assms obtain c cs where s: "s = c # cs" by (cases s) auto
  with assms(1) have "\<not> cls c" by (auto simp: group1_def split: if_splits)
  with s show ?thesis by (simp add: group1_def)
qed

lemma update_blocked_append:
  assumes "update_blocked s"
  shows "match_update_at (s @ u) = None"
proof (cases "literal_blocked ''[UPDATE],'' s")
  case True
  then have "literal ''[UPDATE],'' (s @ u) = None" by (rule literal_blocked_append)
  then show ?thesis by (simp add: match_update_at_def)
next
  case False
  with assms obtain r1 where r1: "literal ''[UPDATE],'' s = Some r1" "skip_spaces r1 \<noteq> []"
    and rest: "case group1 is_digit (skip_spaces r1) of
              None \<Rightarrow> True
            | Some (ts, r2) \<Rightarrow>
                r2 \<noteq> [] \<and>
                (case literal '','' r2 of
                   None \<Rightarrow> True
                 | Some r3 \<Rightarrow>
                     skip_spaces r3 \<noteq> [] \<and>
                     group1 is_digit_or_dot (skip_spaces r3) = None)"
    by (auto simp: update_blocked_def split: option.splits)
  have l1: "literal ''[UPDATE],'' (s @ u) = Some (r1 @ u)"
    using r1(1) by (rule literal_append)
  have s1: "skip_spaces (r1 @ u) = skip_spaces r1 @ u"
    using r1(2) by (rule skip_spaces_append)
  show ?thesis
  proof (cases "group1 is_digit (skip_spaces r1)")
    case None
    then have "group1 is_digit (skip_spaces r1 @ u) = None"
      using r1(2) by (rule group1_None_append)
    with l1 s1 show ?thesis by (simp add: match_update_at_def)
  next
    case (Some a)
    obtain ts r2 where a: "a = (ts, r2)" by (cases a)
    with Some rest have r2: "r2 \<noteq> []"
      and rest2: "case literal '','' r2 of None \<Rightarrow> True
         | Some r3 \<Rightarrow> skip_spaces r3 \<noteq> [] \<and> group1 is_digit_or_dot (skip_spaces r3) = None"
      by auto
    have g1: "group1 is_digit (skip_spaces r1 @ u) = Some (ts, r2 @ u)"
      using Some a r2 by (simp add: group1_append)
    show ?thesis
    proof (cases "literal '','' r2")
      case None
      then have "literal '','' (r2 @ u) = None"
        using r2 by (rule literal_char_None_append)
      with l1 s1 g1 show ?thesis by (simp add: match_update_at_def)
    next
      case (Some r3)
      with rest2 have r3: "skip_spaces r3 \<noteq> []" "group1 is_digit_or_dot (skip_spaces r3) = None"
        by auto
      have l2: "literal '','' (r2 @ u) = Some (r3 @ u)"
        using Some by (rule literal_append)
      have s2: "skip_spaces (r3 @ u) = skip_spaces r3 @ u"
        using r3(1) by (rule skip_spaces_append)
      have "group1 is_digit_or_dot (skip_spaces r3 @ u) = None"
        using r3(2,1) by (rule group1_None_append)
      with l1 s1 g1 l2 s2 show ?thesis by (simp add: match_update_at_def)
    qed
  qed
qed

lemma match_update_at_append:
  assumes "match_update_at l = Some (g, r)" and "r \<noteq> [] \<or> u = [] \<or> \<not> is_digit_or_dot (hd u)"
  shows "match_update_at (l @ u) = Some (g, r @ u)"
proof -
  from assms(1) obtain r1 ts r2 r3 lat where m:
    "literal ''[UPDATE],'' l = Some r1"
    "group1 is_digit (skip_spaces r1) = Some (ts, r2)"
    "literal '','' r2 = Some r3"
    "group1 is_digit_or_dot (skip_spaces r3) = Some (lat, r)"
    "g = (ts, lat)"
    by (auto simp: match_update_at_def split: bind_splits)
  have n1: "skip_spaces r1 \<noteq> []" using m(2) by (auto simp: group1_def split: if_splits)
  have n2: "r2 \<noteq> []" using m(3) by (auto simp: literal_Some)
  have n3: "skip_spaces r3 \<noteq> []" using m(4) by (auto simp: group1_def split: if_splits)
  have "literal ''[UPDATE],'' (l @ u) = Some (r1 @ u)"
    using m(1) by (rule literal_append)
  moreover have "skip_spaces (r1 @ u) = skip_spaces r1 @ u"
    using n1 by (rule skip_spaces_append)
  moreover have "group1 is_digit (skip_spaces r1 @ u) = Some (ts, r2 @ u)"
    using m(2) n2 by (rule group1_append)
  moreover have "literal '','' (r2 @ u) = Some (r3 @ u)"
    using m(3) by (rule literal_append)
  moreover have "skip_spaces (r3 @ u) = skip_spaces r3 @ u"
    using n3 by (rule skip_spaces_append)
  moreover have "group1 is_digit_or_dot (skip_spaces r3 @ u) = Some (lat, r @ u)"
  proof (cases "r = []")
    case True
    with assms(2) have "u = [] \<or> \<not> is_digit_or_dot (hd u)" by simp
    with m(4) True show ?thesis by (simp add: group1_append_end)
  next
    case False
    with m(4) show ?thesis by (rule group1_append)
  qed
  ultimately show ?thesis
    by (simp add: match_update_at_def m(5))
qed

lemma finditer_update_shift:
  "map snd (finditer_update p s) = map snd (finditer_update q s)"
proof (induction p s arbitrary: q rule: finditer_update.induct)
  case (1 pos)
  show ?case by simp
next
  case (2 pos c cs)
  show ?case
  proof (cases "match_update_at (c # cs)")
    case None
    with 2(1) [of "Suc q"] show ?thesis by simp
  next
    case (Some a)
    obtain g rest where a: "a = (g, rest)" by (cases a)
    from 2(2) [OF Some a [symmetric], of "q + (length (c # cs) - length rest)"] Some a
    show ?thesis by (simp del: length_Cons)
  qed
qed

lemma findall_update_Nil: "findall_update [] = []"
  by (simp add: findall_update_def)

lemma findall_update_None:
  "match_update_at (c # cs) = None \<Longrightarrow> findall_update (c # cs) = findall_update cs"
  using finditer_update_shift [of "Suc 0" cs 0] by (simp add: findall_update_def)

lemma findall_update_Some:
  "match_update_at (c # cs) = Some (g, rest) \<Longrightarrow>
     findall_update (c # cs) = g # findall_update rest"
  using finditer_update_shift [of "length (c # cs) - length rest" rest 0]
  by (simp add: findall_update_def del: length_Cons)

lemma match_update_at_bracket: "c \<noteq> CHR ''['' \<Longrightarrow> match_update_at (c # cs) = None"
  by (simp add: match_update_at_def)

lemma findall_update_closed_line:
  assumes "closed_line l" and "u = [] \<or> \<not> is_digit_or_dot (hd u)"
  shows "findall_update (l @ u) = findall_update l @ findall_update u"
  using assms
proof (induction l rule: closed_line.induct)
  case 1
  show ?case by (simp add: findall_update_Nil)
next
  case (2 c cs)
  show ?case
  proof (cases "match_update_at (c # cs)")
    case None
    with 2 have b: "update_blocked (c # cs)" and cl: "closed_line cs" by auto
    from b have "match_update_at ((c # cs) @ u) = None" by (rule update_blocked_append)
    then have "findall_update ((c # cs) @ u) = findall_update (cs @ u)"
      by (simp add: findall_update_None)
    also have "\<dots> = findall_update cs @ findall_update u"
      using 2(1) [OF None] cl 2(4) by simp
    finally show ?thesis using None by (simp add: findall_update_None)
  next
    case (Some a)
    obtain g rest where a: "a = (g, rest)" by (cases a)
    with Some 2 have cl: "closed_line rest" by auto
    from Some a 2(4) have "match_update_at ((c # cs) @ u) = Some (g, rest @ u)"
      by (intro match_update_at_append) auto
    then have "findall_update ((c # cs) @ u) = g # findall_update (rest @ u)"
      by (simp add: findall_update_Some)
    also have "findall_update (rest @ u) = findall_update rest @ findall_update u"
      using 2(2) [OF Some a [symmetric]] cl 2(4) by simp
    finally show ?thesis using Some a by (simp add: findall_update_Some)
  qed
qed

lemma findall_update_newline: "findall_update (CHR 0x0A # u) = findall_update u"
  by (simp add: findall_update_None match_update_at_bracket)

lemma newline_not_digit_or_dot: "\<not> is_digit_or_dot (CHR 0x0A)"
  by (simp add: is_digit_or_dot_def is_digit_def)

lemma findall_update_join_lines:
  "\<forall>l \<in> set ls. closed_line l \<Longrightarrow>
     findall_update (join_lines ls) = concat (map findall_update ls)"
proof (induction ls rule: join_lines.induct)
  case 1
  show ?case by (simp add: findall_update_Nil)
next
  case (2 l)
  show ?case by simp
next
  case (3 l l' ls)
  then have "findall_update (l @ CHR 0x0A # join_lines (l' # ls)) =
      findall_update l @ findall_update (CHR 0x0A # join_lines (l' # ls))"
    by (intro findall_update_closed_line) (simp_all add: newline_not_digit_or_dot)
  with 3 show ?case by (simp add: findall_update_newline)
qed

lemma split_lines_nonempty: "split_lines t \<noteq> []"
  by (induction t) (auto split: list.splits)

lemma join_split_lines: "join_lines (split_lines t) = t"
proof (induction t)
  case Nil
  show ?case by simp
next
  case (Cons c cs)
  obtain l ls where s: "split_lines cs = l # ls"
    using split_lines_nonempty [of cs] by (cases "split_lines cs") auto
  with Cons show ?case by (cases ls) auto
qed

lemma split_lines_no_newline: "l \<in> set (split_lines t) \<Longrightarrow> CHR 0x0A \<notin> set l"
proof (induction t arbitrary: l)
  case Nil
  then show ?case by simp
next
  case (Cons c cs)
  obtain l0 ls where s: "split_lines cs = l0 # ls"
    using split_lines_nonempty [of cs] by (cases "split_lines cs") auto
  with Cons show ?case by (auto split: if_splits)
qed

lemma map_filter_append:
  "List.map_filter f (xs @ ys) = List.map_filter f xs @ List.map_filter f ys"
  by (simp add: List.map_filter_def)

lemma length_map_filter:
  "length (List.map_filter f xs) = length (filter (\<lambda>x. f x \<noteq> None) xs)"
  by (simp add: List.map_filter_def)

lemma mset_map_filter:
  "mset xs = mset ys \<Longrightarrow> mset (List.map_filter f xs) = mset (List.map_filter f ys)"
  by (simp add: List.map_filter_def)

lemma sort_cong_mset: "mset xs = mset ys \<Longrightarrow> sort xs = sort ys"
  by (rule properties_for_sort) simp_all

lemma sorted_map_fst: "sorted (xs :: ('a::linorder \<times> 'b::linorder) list) \<Longrightarrow> sorted (map fst xs)"
  by (induction xs) (auto simp: less_eq_prod_def)

lemma line_record_map_filter:
  "length (findall_update l) \<le> 1 \<Longrightarrow>
     List.map_filter (update_of_match maxd) (findall_update l) =
       (case line_record maxd l of None \<Rightarrow> [] | Some p \<Rightarrow> [p])"
  by (cases "findall_update l" rule: list.exhaust; cases "tl (findall_update l)")
    (auto simp: line_record_def split: option.splits)

lemma map_filter_lines:
  "\<forall>l \<in> set ls. length (findall_update l) \<le> 1 \<Longrightarrow>
     List.map_filter (update_of_match maxd) (concat (map findall_update ls)) =
       List.map_filter (line_record maxd) ls"
  by (induction ls) (auto simp: map_filter_append line_record_map_filter split: option.splits)

lemma extract_line:
  "length (findall_update l) \<le> 1 \<Longrightarrow>
     extract_timeseries_data maxd l \<noteq> Inr [] \<longleftrightarrow> line_record maxd l \<noteq> None"
  by (auto simp: extract_timeseries_data_eq line_record_map_filter split: option.splits)

lemma extract_lines:
  assumes "\<forall>l \<in> set ls. closed_line l \<and> length (findall_update l) \<le> 1"
  shows "extract_timeseries_data maxd (join_lines ls) =
    Inr (sort (List.map_filter (line_record maxd) ls))"
  using assms
  by (simp add: extract_timeseries_data_eq findall_update_join_lines map_filter_lines)

subsection \<open>The matchers and the regular expressions\<close>

lemma space_not_digit: "is_space c \<Longrightarrow> \<not> is_digit c"
  by (auto simp: is_space_def is_digit_def Let_def)

lemma space_not_digit_or_dot: "is_space c \<Longrightarrow> \<not> is_digit_or_dot c"
  by (auto simp: is_space_def is_digit_or_dot_def is_digit_def Let_def)

lemma space_not_word: "is_space c \<Longrightarrow> \<not> is_word c"
  by (auto simp: is_space_def is_word_def Let_def)

lemma comma_classes:
  "\<not> is_digit CHR '',''" "\<not> is_word CHR '',''" "\<not> is_space CHR '',''"
  "\<not> is_digit_or_dot CHR '',''"
  by (simp_all add: is_digit_def is_word_def is_space_def is_digit_or_dot_def)

lemma letter_classes:
  "\<not> is_space CHR ''T''" "\<not> is_space CHR ''o''" "\<not> is_digit_or_dot CHR ''o''"
  "\<not> is_space CHR ''E''" "\<not> is_digit CHR ''m''"
  by (simp_all add: is_digit_def is_space_def is_digit_or_dot_def)

lemma skip_spaces_exact:
  "list_all is_space w \<Longrightarrow> t = [] \<or> \<not> is_space (hd t) \<Longrightarrow> skip_spaces (w @ t) = t"
  by (cases t) (auto simp: skip_spaces_def list_all_iff dropWhile_append2)

lemma group1_exact:
  assumes "g \<noteq> []" "list_all cls g" "t = [] \<or> \<not> cls (hd t)"
  shows "group1 cls (g @ t) = Some (g, t)"
proof -
  from assms(2) have all: "\<And>x. x \<in> set g \<Longrightarrow> cls x" by (simp add: list_all_iff)
  from assms(3) have t: "takeWhile cls t = []" "dropWhile cls t = t"
    by (cases t; auto)+
  from all t have "takeWhile cls (g @ t) = g" "dropWhile cls (g @ t) = t"
    by (simp_all add: takeWhile_append2 dropWhile_append2)
  with assms(1) show ?thesis by (simp add: group1_def)
qed

lemma skip_spaces_split:
  "\<exists>w. s = w @ skip_spaces s \<and> list_all is_space w"
  unfolding skip_spaces_def list_all_iff
  by (metis takeWhile_dropWhile_id set_takeWhileD)

lemma group1_rest: "group1 cls s = Some (g, r) \<Longrightarrow> r = [] \<or> \<not> cls (hd r)"
proof -
  assume "group1 cls s = Some (g, r)"
  then have "r = dropWhile cls s" by (simp add: group1_Some)
  then show ?thesis using hd_dropWhile [of cls s] by blast
qed

text \<open>
  The update matcher succeeds exactly on the texts that begin with a string of the
  regular expression whose last group cannot be extended, and returns its groups; where
  the expression matches with a shorter last group, the matcher returns the longest one,
  as the greedy \<^verbatim>\<open>+\<close> does.
\<close>

lemma match_update_at_iff:
  "match_update_at s = Some ((ts, lat), r) \<longleftrightarrow>
     (\<exists>w1 w2. s = ''[UPDATE],'' @ w1 @ ts @ '','' @ w2 @ lat @ r
        \<and> list_all is_space w1 \<and> ts \<noteq> [] \<and> list_all is_digit ts
        \<and> list_all is_space w2 \<and> lat \<noteq> [] \<and> list_all is_digit_or_dot lat
        \<and> (r = [] \<or> \<not> is_digit_or_dot (hd r)))"
proof
  assume "match_update_at s = Some ((ts, lat), r)"
  then obtain r1 r2 r3 where m:
    "literal ''[UPDATE],'' s = Some r1"
    "group1 is_digit (skip_spaces r1) = Some (ts, r2)"
    "literal '','' r2 = Some r3"
    "group1 is_digit_or_dot (skip_spaces r3) = Some (lat, r)"
    by (auto simp: match_update_at_def split: bind_splits)
  obtain w1 w2 where w: "r1 = w1 @ skip_spaces r1" "list_all is_space w1"
    "r3 = w2 @ skip_spaces r3" "list_all is_space w2"
    using skip_spaces_split by metis
  from m have e: "s = ''[UPDATE],'' @ r1" "skip_spaces r1 = ts @ r2" "r2 = '','' @ r3"
    "skip_spaces r3 = lat @ r"
    by (simp_all only: literal_Some group1_suffix)
  have "s = ''[UPDATE],'' @ w1 @ ts @ '','' @ w2 @ lat @ r"
    apply (subst e(1)) apply (subst w(1)) apply (subst e(2)) apply (subst e(3))
    apply (subst w(3)) apply (subst e(4)) apply (simp only: append_assoc)
    done
  moreover from m have "ts \<noteq> [] \<and> list_all is_digit ts" "lat \<noteq> [] \<and> list_all is_digit_or_dot lat"
    "r = [] \<or> \<not> is_digit_or_dot (hd r)"
    by (auto dest: group1_all group1_rest)
  ultimately show "\<exists>w1 w2. s = ''[UPDATE],'' @ w1 @ ts @ '','' @ w2 @ lat @ r
        \<and> list_all is_space w1 \<and> ts \<noteq> [] \<and> list_all is_digit ts
        \<and> list_all is_space w2 \<and> lat \<noteq> [] \<and> list_all is_digit_or_dot lat
        \<and> (r = [] \<or> \<not> is_digit_or_dot (hd r))"
    using w(2,4) by blast
next
  assume "\<exists>w1 w2. s = ''[UPDATE],'' @ w1 @ ts @ '','' @ w2 @ lat @ r
        \<and> list_all is_space w1 \<and> ts \<noteq> [] \<and> list_all is_digit ts
        \<and> list_all is_space w2 \<and> lat \<noteq> [] \<and> list_all is_digit_or_dot lat
        \<and> (r = [] \<or> \<not> is_digit_or_dot (hd r))"
  then obtain w1 w2 where d: "s = ''[UPDATE],'' @ w1 @ ts @ '','' @ w2 @ lat @ r"
    "list_all is_space w1" "ts \<noteq> []" "list_all is_digit ts"
    "list_all is_space w2" "lat \<noteq> []" "list_all is_digit_or_dot lat"
    "r = [] \<or> \<not> is_digit_or_dot (hd r)"
    by blast
  have 1: "literal ''[UPDATE],'' s = Some (w1 @ ts @ '','' @ w2 @ lat @ r)"
    by (simp only: literal_Some d(1))
  have "\<not> is_space (hd (ts @ '','' @ w2 @ lat @ r))"
    using d(3,4) by (cases ts) (auto dest: space_not_digit)
  then have 2: "skip_spaces (w1 @ ts @ '','' @ w2 @ lat @ r) = ts @ '','' @ w2 @ lat @ r"
    using d(2) by (intro skip_spaces_exact) simp_all
  have 3: "group1 is_digit (ts @ '','' @ w2 @ lat @ r) = Some (ts, '','' @ w2 @ lat @ r)"
    using d(3,4) by (intro group1_exact) (simp_all add: comma_classes)
  have 4: "literal '','' ('','' @ w2 @ lat @ r) = Some (w2 @ lat @ r)"
    by (simp only: literal_Some)
  have "\<not> is_space (hd (lat @ r))"
    using d(6,7) by (cases lat) (auto dest: space_not_digit_or_dot)
  then have 5: "skip_spaces (w2 @ lat @ r) = lat @ r"
    using d(5) by (intro skip_spaces_exact) simp_all
  have 6: "group1 is_digit_or_dot (lat @ r) = Some (lat, r)"
    using d(6,7,8) by (intro group1_exact)
  show "match_update_at s = Some ((ts, lat), r)"
    by (simp only: match_update_at_def 1 2 3 4 5 6 Option.bind.simps prod.case)
qed


lemma match_update_at_greedy:
  assumes "s = ''[UPDATE],'' @ w1 @ ts @ '','' @ w2 @ lat @ r"
    and "list_all is_space w1" "ts \<noteq> []" "list_all is_digit ts"
    and "list_all is_space w2" "lat \<noteq> []" "list_all is_digit_or_dot lat"
  shows "match_update_at s =
    Some ((ts, lat @ takeWhile is_digit_or_dot r), dropWhile is_digit_or_dot r)"
proof -
  let ?lat = "lat @ takeWhile is_digit_or_dot r" and ?r = "dropWhile is_digit_or_dot r"
  have "s = ''[UPDATE],'' @ w1 @ ts @ '','' @ w2 @ ?lat @ ?r"
    using assms(1) by simp
  moreover have "list_all is_digit_or_dot ?lat"
    using assms(7) by (auto simp: list_all_iff dest: set_takeWhileD)
  moreover have "?r = [] \<or> \<not> is_digit_or_dot (hd ?r)"
    using hd_dropWhile [of is_digit_or_dot r] by blast
  ultimately show ?thesis
    using assms(2-6) by (subst match_update_at_iff) blast
qed

text \<open>
  The phase matcher succeeds exactly on the texts that begin with a string of the
  regular expression, and returns its groups.
\<close>

lemma match_phase_at_iff:
  "match_phase_at s = Some ((nm, th, el), r) \<longleftrightarrow>
     (\<exists>w1 w2 w3 w4 w5 w6.
        s = ''Phase:'' @ w1 @ nm @ '','' @ w2 @ ''Throughput:'' @ w3 @ th @ w4 @
            ''ops/sec,'' @ w5 @ ''Elapsed:'' @ w6 @ el @ ''ms'' @ r
        \<and> list_all is_space w1 \<and> list_all is_space w2 \<and> list_all is_space w3
        \<and> list_all is_space w4 \<and> list_all is_space w5 \<and> list_all is_space w6
        \<and> nm \<noteq> [] \<and> list_all is_word nm \<and> th \<noteq> [] \<and> list_all is_digit_or_dot th
        \<and> el \<noteq> [] \<and> list_all is_digit el)"
  (is "?L \<longleftrightarrow> ?R")
proof
  assume ?L
  then obtain r1 r2 r3 r4 r5 r6 r7 r8 where m:
    "literal ''Phase:'' s = Some r1"
    "group1 is_word (skip_spaces r1) = Some (nm, r2)"
    "literal '','' r2 = Some r3"
    "literal ''Throughput:'' (skip_spaces r3) = Some r4"
    "group1 is_digit_or_dot (skip_spaces r4) = Some (th, r5)"
    "literal ''ops/sec,'' (skip_spaces r5) = Some r6"
    "literal ''Elapsed:'' (skip_spaces r6) = Some r7"
    "group1 is_digit (skip_spaces r7) = Some (el, r8)"
    "literal ''ms'' r8 = Some r"
    by (auto simp: match_phase_at_def split: bind_splits)
  obtain w1 w2 w3 w4 w5 w6 where w:
    "r1 = w1 @ skip_spaces r1" "list_all is_space w1"
    "r3 = w2 @ skip_spaces r3" "list_all is_space w2"
    "r4 = w3 @ skip_spaces r4" "list_all is_space w3"
    "r5 = w4 @ skip_spaces r5" "list_all is_space w4"
    "r6 = w5 @ skip_spaces r6" "list_all is_space w5"
    "r7 = w6 @ skip_spaces r7" "list_all is_space w6"
    using skip_spaces_split by metis
  from m have e: "s = ''Phase:'' @ r1" "skip_spaces r1 = nm @ r2" "r2 = '','' @ r3"
    "skip_spaces r3 = ''Throughput:'' @ r4" "skip_spaces r4 = th @ r5"
    "skip_spaces r5 = ''ops/sec,'' @ r6" "skip_spaces r6 = ''Elapsed:'' @ r7"
    "skip_spaces r7 = el @ r8" "r8 = ''ms'' @ r"
    by (simp_all only: literal_Some group1_suffix)
  have "s = ''Phase:'' @ w1 @ nm @ '','' @ w2 @ ''Throughput:'' @ w3 @ th @ w4 @
            ''ops/sec,'' @ w5 @ ''Elapsed:'' @ w6 @ el @ ''ms'' @ r"
    apply (subst e(1)) apply (subst w(1)) apply (subst e(2)) apply (subst e(3))
    apply (subst w(3)) apply (subst e(4)) apply (subst w(5)) apply (subst e(5))
    apply (subst w(7)) apply (subst e(6)) apply (subst w(9)) apply (subst e(7))
    apply (subst w(11)) apply (subst e(8)) apply (subst e(9))
    apply (simp only: append_assoc)
    done
  moreover from m have "nm \<noteq> [] \<and> list_all is_word nm" "th \<noteq> [] \<and> list_all is_digit_or_dot th"
    "el \<noteq> [] \<and> list_all is_digit el"
    by (auto dest: group1_all)
  ultimately show ?R
    using w(2,4,6,8,10,12) by blast
next
  assume ?R
  then obtain w1 w2 w3 w4 w5 w6 where d:
    "s = ''Phase:'' @ w1 @ nm @ '','' @ w2 @ ''Throughput:'' @ w3 @ th @ w4 @
            ''ops/sec,'' @ w5 @ ''Elapsed:'' @ w6 @ el @ ''ms'' @ r"
    "list_all is_space w1" "list_all is_space w2" "list_all is_space w3"
    "list_all is_space w4" "list_all is_space w5" "list_all is_space w6"
    "nm \<noteq> []" "list_all is_word nm" "th \<noteq> []" "list_all is_digit_or_dot th"
    "el \<noteq> []" "list_all is_digit el"
    by blast
  let ?t9 = "''ms'' @ r"
  let ?t8 = "el @ ?t9"
  let ?t7 = "''Elapsed:'' @ w6 @ ?t8"
  let ?t6 = "''ops/sec,'' @ w5 @ ?t7"
  let ?t5 = "th @ w4 @ ?t6"
  let ?t4 = "''Throughput:'' @ w3 @ ?t5"
  let ?t3 = "'','' @ w2 @ ?t4"
  let ?t2 = "nm @ ?t3"
  have 1: "literal ''Phase:'' s = Some (w1 @ ?t2)"
    by (simp only: literal_Some d(1))
  have "\<not> is_space (hd ?t2)"
    using d(8,9) by (cases nm) (auto dest: space_not_word)
  then have 2: "skip_spaces (w1 @ ?t2) = ?t2"
    using d(2) by (intro skip_spaces_exact) simp_all
  have 3: "group1 is_word ?t2 = Some (nm, ?t3)"
    using d(8,9) by (intro group1_exact) (simp_all add: comma_classes)
  have 4: "literal '','' ?t3 = Some (w2 @ ?t4)"
    by (simp only: literal_Some)
  have 5: "skip_spaces (w2 @ ?t4) = ?t4"
    using d(3) by (intro skip_spaces_exact) (simp_all add: letter_classes)
  have 6: "literal ''Throughput:'' ?t4 = Some (w3 @ ?t5)"
    by (simp only: literal_Some)
  have "\<not> is_space (hd ?t5)"
    using d(10,11) by (cases th) (auto dest: space_not_digit_or_dot)
  then have 7: "skip_spaces (w3 @ ?t5) = ?t5"
    using d(4) by (intro skip_spaces_exact) simp_all
  have "w4 @ ?t6 = [] \<or> \<not> is_digit_or_dot (hd (w4 @ ?t6))"
    using d(5) by (cases w4) (auto simp: letter_classes dest: space_not_digit_or_dot)
  then have 8: "group1 is_digit_or_dot ?t5 = Some (th, w4 @ ?t6)"
    using d(10,11) by (intro group1_exact)
  have 9: "skip_spaces (w4 @ ?t6) = ?t6"
    using d(5) by (intro skip_spaces_exact) (simp_all add: letter_classes)
  have 10: "literal ''ops/sec,'' ?t6 = Some (w5 @ ?t7)"
    by (simp only: literal_Some)
  have 11: "skip_spaces (w5 @ ?t7) = ?t7"
    using d(6) by (intro skip_spaces_exact) (simp_all add: letter_classes)
  have 12: "literal ''Elapsed:'' ?t7 = Some (w6 @ ?t8)"
    by (simp only: literal_Some)
  have "\<not> is_space (hd ?t8)"
    using d(12,13) by (cases el) (auto dest: space_not_digit)
  then have 13: "skip_spaces (w6 @ ?t8) = ?t8"
    using d(7) by (intro skip_spaces_exact) simp_all
  have 14: "group1 is_digit ?t8 = Some (el, ?t9)"
    using d(12,13) by (intro group1_exact) (simp_all add: letter_classes)
  have 15: "literal ''ms'' ?t9 = Some r"
    by (simp only: literal_Some)
  show ?L
    by (simp only: match_phase_at_def 1 2 3 4 5 6 7 8 9 10 11 12 13 14 15
        Option.bind.simps prod.case)
qed

section \<open>The claims\<close>



text \<open>
  C9: for every captured text, every pair that \<^verbatim>\<open>extract_timeseries_data\<close> returns
  has a timestamp and a latency that are not negative, and every pair of groups that
  the pattern captures is a non-empty string of digits and a non-empty string of digits
  and dots.
\<close>

theorem parsed_values_are_nonnegative:
  assumes "extract_timeseries_data maxd output = Inr ts"
  shows "(\<forall>(t, l) \<in> set ts. 0 \<le> t \<and> 0 \<le> l)
    \<and> (\<forall>(a, b) \<in> set (findall_update output).
          a \<noteq> [] \<and> list_all is_digit a \<and> b \<noteq> [] \<and> list_all is_digit_or_dot b)"
proof -
  from assms have "set ts = set (List.map_filter (update_of_match maxd) (findall_update output))"
    by (auto simp: extract_timeseries_data_eq)
  then have "\<forall>(t, l) \<in> set ts. 0 \<le> t \<and> 0 \<le> l"
    by (auto simp: in_set_map_filter dest!: update_of_match_nonneg)
  moreover have "\<forall>(a, b) \<in> set (findall_update output).
      a \<noteq> [] \<and> list_all is_digit a \<and> b \<noteq> [] \<and> list_all is_digit_or_dot b"
    using findall_update_groups by blast
  ultimately show ?thesis by blast
qed

theorem parsed_values_are_nonnegative_witness:
  "extract_timeseries_data 4300 sample_output = Inr [(3, 7), (10, 5 / 2)]
   \<and> list_all (\<lambda>(t, l). 0 \<le> t \<and> 0 \<le> l) [(3 :: int, 7 :: rat), (10, 5 / 2)]
   \<and> list_all (\<lambda>(a, b). a \<noteq> [] \<and> list_all is_digit a \<and> b \<noteq> [] \<and> list_all is_digit_or_dot b)
        (findall_update sample_output)"
proof -
  have e: "extract_timeseries_data 4300 sample_output = Inr [(3, 7), (10, 5 / 2)]"
    by code_simp
  from parsed_values_are_nonnegative [OF e] e show ?thesis
    unfolding list_all_iff by blast
qed







text \<open>
  C6: when the script path does not exist, \<^verbatim>\<open>main\<close> prints the error and ends the
  process with exit code 1; the message is its only effect: no run, no file, no figure.
\<close>

theorem missing_script_is_fatal:
  assumes "\<not> path_exists e (script a)"
  shows "main e a = ([Print (msg_not_found (script a))], 1)"
  using assms by (simp add: main_def)

theorem missing_script_is_fatal_witness:
  "\<not> path_exists sample_env ''./missing.sh''
   \<and> main sample_env \<lparr>runs = 4, script = ''./missing.sh'', no_plot = False\<rparr> =
       ([Print (''Error: Test script '' @ [CHR 0x27] @ ''./missing.sh'' @ [CHR 0x27] @ '' not found'')], 1)"
proof -
  have h: "\<not> path_exists sample_env (script \<lparr>runs = 4, script = ''./missing.sh'', no_plot = False\<rparr>)"
    by code_simp
  from missing_script_is_fatal [OF h] h show ?thesis
    by (simp add: msg_not_found_def)
qed

text \<open>
  C7, evaluated where the first run exits with code 1: the second run starts right
  after the messages of the first, with no \<open>Sleep\<close> between the two \<open>Exec\<close>, while
  the second and the third run are ten seconds apart.  The \<^verbatim>\<open>continue\<close> of a run
  that returned \<^verbatim>\<open>None\<close> leaves the iteration before the wait between tests.
\<close>

theorem no_delay_after_failed_run:
  "script_outcome sample_env 0 = Exited 1 [] ''boom''
   \<and> trace_of sample_env (init ''./test.sh'' 2) =
      [Print ''Starting 2 test runs...'',
       Print ''Running test 1/2...'', Exec ''./test.sh'' 300,
       Print ''Test 1 failed with return code 1'', Print ''Error output: boom'',
       Print ''Running test 2/2...'', Exec ''./test.sh'' 300,
       Print ''Test 2 completed: 2 data points'']
   \<and> trace_of sample_env (init ''./test.sh'' 3) =
      [Print ''Starting 3 test runs...'',
       Print ''Running test 1/3...'', Exec ''./test.sh'' 300,
       Print ''Test 1 failed with return code 1'', Print ''Error output: boom'',
       Print ''Running test 2/3...'', Exec ''./test.sh'' 300,
       Print ''Test 2 completed: 2 data points'',
       Print ''Waiting 10 seconds before next test...'', Sleep 10,
       Print ''Running test 3/3...'', Exec ''./test.sh'' 300,
       Print ''Test 3 completed but no time series data found'']"
  by code_simp

text \<open>
  C8: every entry that \<^verbatim>\<open>run_all_tests\<close> appends to the results has a non-empty time
  series and the number \<open>i + 1\<close> of the run with index \<open>i\<close> that produced it, and the
  numbers of the appended entries increase strictly in the order of appending.
\<close>

theorem appended_results_invariant:
  "\<exists>new. results_after e self = results self @ new
     \<and> (\<forall>r \<in> set new. timeseries r \<noteq> []
           \<and> (\<exists>i < nat (num_runs self). run_id r = int i + 1 \<and> produced_by e i r))
     \<and> sorted_wrt (<) (map run_id new)"
  using run_all_tests_appends [of e self] produced_by_run_id by blast

theorem appended_results_invariant_witness:
  "results_after sample_env (init ''./test.sh'' 5) =
     [\<lparr>run_id = 2, timeseries = [(3, 7), (10, 5 / 2)],
       phases = [\<lparr>name = ''B'', throughput = 5 / 2, elapsed = 9\<rparr>],
       timestamp = ''2024-01-01T00:00:01''\<rparr>]
   \<and> (\<exists>new. results_after sample_env (init ''./test.sh'' 5) = results (init ''./test.sh'' 5) @ new
     \<and> list_all (\<lambda>r. timeseries r \<noteq> []
           \<and> (\<exists>i < nat (num_runs (init ''./test.sh'' 5)). run_id r = int i + 1 \<and> produced_by sample_env i r)) new
     \<and> sorted_wrt (<) (map run_id new))"
proof -
  have "results_after sample_env (init ''./test.sh'' 5) =
     [\<lparr>run_id = 2, timeseries = [(3, 7), (10, 5 / 2)],
       phases = [\<lparr>name = ''B'', throughput = 5 / 2, elapsed = 9\<rparr>],
       timestamp = ''2024-01-01T00:00:01''\<rparr>]"
    by code_simp
  with appended_results_invariant [of sample_env "init ''./test.sh'' 5"] show ?thesis
    unfolding list_all_iff by blast
qed

text \<open>
  C1, as the claim states it, fails.  The pattern is searched in the whole text, not
  line by line: the one line of \<open>two_records_on_a_line\<close> yields two pairs, and
  \<open>record_across_lines\<close>, none of whose three lines matches, yields one pair.
\<close>

theorem lines_and_pairs_counterexample:
  "length (matching_lines 4300 two_records_on_a_line) = 1
   \<and> extract_timeseries_data 4300 two_records_on_a_line = Inr [(1, 2), (3, 4)]
   \<and> length (matching_lines 4300 record_across_lines) = 0
   \<and> extract_timeseries_data 4300 record_across_lines = Inr [(5, 3)]"
  by code_simp

text \<open>
  C1, amended: for every text whose lines are all closed and hold at most one match
  of the pattern each, \<^verbatim>\<open>extract_timeseries_data\<close> returns the pairs of the lines
  that hold a match with well-formed fields, one pair for each such line; the list is
  sorted, ascending by timestamp; and every text with the same lines in another order
  gives the same list.
\<close>

theorem one_pair_per_record_line:
  assumes "one_record_per_line output"
  shows "\<exists>ts. extract_timeseries_data maxd output = Inr ts
    \<and> mset ts = mset (List.map_filter (line_record maxd) (split_lines output))
    \<and> length ts = length (matching_lines maxd output)
    \<and> sorted ts \<and> sorted (map fst ts)
    \<and> (\<forall>output'. mset (split_lines output') = mset (split_lines output) \<longrightarrow>
          extract_timeseries_data maxd output' = Inr ts)"
proof -
  let ?ls = "split_lines output"
  let ?ts = "sort (List.map_filter (line_record maxd) ?ls)"
  from assms have ok: "\<forall>l \<in> set ?ls. closed_line l \<and> length (findall_update l) \<le> 1"
    by (simp add: one_record_per_line_def list_all_iff)
  from extract_lines [OF ok] have e: "extract_timeseries_data maxd output = Inr ?ts"
    by (simp add: join_split_lines)
  have "filter (\<lambda>l. extract_timeseries_data maxd l \<noteq> Inr []) ?ls =
      filter (\<lambda>l. line_record maxd l \<noteq> None) ?ls"
    using ok by (intro filter_cong) (auto simp: extract_line)
  then have n: "length ?ts = length (matching_lines maxd output)"
    by (simp add: matching_lines_def length_map_filter)
  have o: "extract_timeseries_data maxd output' = Inr ?ts"
    if m: "mset (split_lines output') = mset ?ls" for output'
  proof -
    from m have "set (split_lines output') = set ?ls" by (rule mset_eq_setD)
    with ok have "\<forall>l \<in> set (split_lines output').
        closed_line l \<and> length (findall_update l) \<le> 1"
      by simp
    from extract_lines [OF this]
    have "extract_timeseries_data maxd output' =
        Inr (sort (List.map_filter (line_record maxd) (split_lines output')))"
      by (simp add: join_split_lines)
    moreover have "sort (List.map_filter (line_record maxd) (split_lines output')) = ?ts"
      using m by (intro sort_cong_mset mset_map_filter)
    ultimately show ?thesis by simp
  qed
  show ?thesis
    using e n o by (intro exI [of _ ?ts]) (simp add: sorted_map_fst)
qed

theorem one_pair_per_record_line_witness:
  "one_record_per_line sample_lines
   \<and> matching_lines 4300 sample_lines = [''[UPDATE], 20, 1.5'', '' [UPDATE], 10, 2.5 us'']
   \<and> extract_timeseries_data 4300 sample_lines = Inr [(10, 5 / 2), (20, 3 / 2)]
   \<and> (\<exists>ts. extract_timeseries_data 4300 sample_lines = Inr ts
    \<and> mset ts = mset (List.map_filter (line_record 4300) (split_lines sample_lines))
    \<and> length ts = length (matching_lines 4300 sample_lines)
    \<and> sorted ts \<and> sorted (map fst ts)
    \<and> (\<forall>output'. mset (split_lines output') = mset (split_lines sample_lines) \<longrightarrow>
          extract_timeseries_data 4300 output' = Inr ts))"
proof -
  have h: "one_record_per_line sample_lines"
    by code_simp
  have m: "matching_lines 4300 sample_lines = [''[UPDATE], 20, 1.5'', '' [UPDATE], 10, 2.5 us'']"
    by code_simp
  have e: "extract_timeseries_data 4300 sample_lines = Inr [(10, 5 / 2), (20, 3 / 2)]"
    by code_simp
  from one_pair_per_record_line [OF h, of 4300] h m e show ?thesis
    by blast
qed

end
